theory Spec2Isabelle
  imports Main "HOL-Library.Word" "HOL-Library.RBT"
begin

section \<open>Virtual address ranges (kernel/memory/VirtualRange.cpp)\<close>

text \<open>
  \<open>FlatPtr\<close> and \<open>size_t\<close> are the pointer-sized unsigned integers of the target;
  the width is the type parameter \<open>'a\<close> of \<open>'a word\<close>, so that every result below
  holds for the 32-bit and for the 64-bit build alike. Arithmetic on words wraps
  around, as the C++ arithmetic on \<open>FlatPtr\<close> does.
\<close>

datatype error = EINVAL | VERIFY_failed

text \<open>
  Modelled from the spec: the class declaration \<open>VirtualRange.h\<close> is not among the
  sources. A range is the pair of a base address and a size in bytes (spec, data
  model: \<open>{ base: VirtualAddress, size: usize }\<close>); two ranges are equal iff base and
  size are equal.
\<close>

record (overloaded) ('a::len) VirtualRange =
  base :: "'a word"
  size_r :: "'a word"

text \<open>
  Modelled from the spec: \<open>VirtualRange::end()\<close> (declared in the missing
  \<open>VirtualRange.h\<close>) is the first address after the half-open interval, computed in
  machine arithmetic from base and size.
\<close>

definition end_r :: "'a::len VirtualRange \<Rightarrow> 'a word" where
  "end_r r = base r + size_r r"

text \<open>
  Modelled from the spec: the constant \<open>PAGE_SIZE\<close> is defined in a header that is
  not among the sources; the spec's worked example allocates in pages of \<open>0x1000\<close>
  bytes.
\<close>

definition PAGE_SIZE :: nat where
  "PAGE_SIZE = 4096"

text \<open>
  \<open>VirtualRange::carve\<close>. \<open>VERIFY\<close> aborts the kernel when its condition is false;
  that outcome is the value \<open>Inl VERIFY_failed\<close>.
\<close>

definition carve :: "'a::len VirtualRange \<Rightarrow> 'a VirtualRange \<Rightarrow> error + 'a VirtualRange list" where
  "carve this taken =
     (if unat (size_r taken) mod PAGE_SIZE \<noteq> 0 then Inl VERIFY_failed
      else if taken = this then Inr []
      else Inr
        ((if base taken > base this
          then [\<lparr>base = base this, size_r = base taken - base this\<rparr>] else []) @
         (if end_r taken < end_r this
          then [\<lparr>base = end_r taken, size_r = end_r this - end_r taken\<rparr>] else [])))"

text \<open>\<open>VirtualRange::intersect\<close>.\<close>

definition intersect :: "'a::len VirtualRange \<Rightarrow> 'a VirtualRange \<Rightarrow> error + 'a VirtualRange" where
  "intersect this other =
     (if this = other then Inr this
      else let new_base = max (base this) (base other);
               new_end = min (end_r this) (end_r other)
           in if \<not> new_base < new_end then Inl VERIFY_failed
              else Inr \<lparr>base = new_base, size_r = new_end - new_base\<rparr>)"

text \<open>
  Modelled from the spec: the page rounding helpers are declared in headers that
  are not among the sources. \<open>round_up_nat\<close> rounds a number up to a page boundary,
  that is to the least multiple of the page size at or above it, in unbounded
  arithmetic.
\<close>

definition round_up_nat :: "nat \<Rightarrow> nat" where
  "round_up_nat n = (n + (PAGE_SIZE - 1)) div PAGE_SIZE * PAGE_SIZE"

text \<open>
  Modelled from the spec: \<open>page_round_up_would_wrap\<close> (header not among the sources).
  Rounding up to a page boundary would wrap when the rounded value is no longer an
  address of the machine.
\<close>

definition page_round_up_would_wrap :: "'a::len word \<Rightarrow> bool" where
  "page_round_up_would_wrap x = (2 ^ LENGTH('a) \<le> round_up_nat (unat x))"

text \<open>
  Modelled from the spec: \<open>page_round_up\<close> (header not among the sources), the
  address rounded up to a page boundary.
\<close>

definition page_round_up :: "'a::len word \<Rightarrow> 'a word" where
  "page_round_up x = word_of_nat (round_up_nat (unat x))"

text \<open>
  Modelled from the spec: \<open>VirtualAddress::page_base\<close> (header not among the
  sources), the greatest page boundary at or below the address.
\<close>

definition page_base :: "'a::len word \<Rightarrow> 'a word" where
  "page_base a = word_of_nat (unat a div PAGE_SIZE * PAGE_SIZE)"

text \<open>\<open>VirtualRange::expand_to_page_boundaries\<close>; the error result is \<open>Inl EINVAL\<close>.\<close>

definition expand_to_page_boundaries :: "'a::len word \<Rightarrow> 'a word \<Rightarrow> error + 'a VirtualRange" where
  "expand_to_page_boundaries address sz =
     (if page_round_up_would_wrap sz then Inl EINVAL
      else if address + sz < address then Inl EINVAL
      else if page_round_up_would_wrap (address + sz) then Inl EINVAL
      else let base' = page_base address; end' = page_round_up (address + sz)
           in Inr \<lparr>base = base', size_r = end' - base'\<rparr>)"

subsection \<open>Containment and overlap\<close>

text \<open>
  The end of a range in unbounded arithmetic. A range does not wrap when this end
  is below \<open>2 ^ N\<close>, so that \<open>end()\<close>, computed by the machine, is that end; the end
  of a range that reaches the top of the address space wraps around.
\<close>

definition end_nat :: "'a::len VirtualRange \<Rightarrow> nat" where
  "end_nat r = unat (base r) + unat (size_r r)"

definition no_wrap :: "'a::len VirtualRange \<Rightarrow> bool" where
  "no_wrap r = (end_nat r < 2 ^ LENGTH('a))"

text \<open>
  Modelled from the spec: \<open>VirtualRange::contains(VirtualAddress)\<close> is declared in the
  missing \<open>VirtualRange.h\<close>. An address lies in a range, a half-open interval, when it
  is at or above the base and below the end, the end taken in unbounded arithmetic.
\<close>

definition contains_address :: "'a::len VirtualRange \<Rightarrow> 'a word \<Rightarrow> bool" where
  "contains_address r vaddr = (unat (base r) \<le> unat vaddr \<and> unat vaddr < end_nat r)"

text \<open>
  Modelled from the spec: \<open>VirtualRange::contains(VirtualRange)\<close> is declared in the
  missing \<open>VirtualRange.h\<close>. A range lies fully within another one when its base is
  at or above the other base and its end is at or below the other end, both ends
  taken in unbounded arithmetic.
\<close>

definition contains :: "'a::len VirtualRange \<Rightarrow> 'a VirtualRange \<Rightarrow> bool" where
  "contains r other = (unat (base r) \<le> unat (base other) \<and> end_nat other \<le> end_nat r)"

text \<open>The set of addresses of a range, and two ranges sharing an address.\<close>

definition addresses :: "'a::len VirtualRange \<Rightarrow> 'a word set" where
  "addresses r = {a. contains_address r a}"

definition overlaps :: "'a::len VirtualRange \<Rightarrow> 'a VirtualRange \<Rightarrow> bool" where
  "overlaps A B = (\<exists>a. contains_address A a \<and> contains_address B a)"

text \<open>
  The same tests on the machine representation, with the end of a range as \<open>end()\<close>
  computes it. They serve in the proofs: for ranges that do not wrap they agree with
  the tests above (lemmas \<open>contains_m_iff\<close> and \<open>contains_address_m_iff\<close>).
\<close>

definition contains_address_m :: "'a::len VirtualRange \<Rightarrow> 'a word \<Rightarrow> bool" where
  "contains_address_m r vaddr = (base r \<le> vaddr \<and> vaddr < end_r r)"

definition contains_m :: "'a::len VirtualRange \<Rightarrow> 'a VirtualRange \<Rightarrow> bool" where
  "contains_m r other =
     (\<not> end_r other < base other \<and> base r \<le> base other \<and> end_r other \<le> end_r r)"

definition addresses_m :: "'a::len VirtualRange \<Rightarrow> 'a word set" where
  "addresses_m r = {a. contains_address_m r a}"

section \<open>Properties of carve\<close>

lemma end_r_mk [simp]: "end_r \<lparr>base = b, size_r = e - b\<rparr> = e"
  by (simp add: end_r_def)

lemma addresses_m_mk: "addresses_m \<lparr>base = b, size_r = e - b\<rparr> = {a. b \<le> a \<and> a < e}"
  by (simp add: addresses_m_def contains_address_m_def)

lemma no_wrap_iff: "no_wrap r = (\<not> end_r r < base r)"
  by (simp add: no_wrap_def end_nat_def end_r_def not_less no_olen_add_nat)

lemma unat_end_r: "no_wrap r \<Longrightarrow> unat (end_r r) = end_nat r"
  by (simp add: no_wrap_def end_nat_def end_r_def unat_add_lem)

lemma contains_no_wrap: "contains A B \<Longrightarrow> no_wrap A \<Longrightarrow> no_wrap B"
  by (simp add: contains_def no_wrap_def)

lemma contains_m_iff: "contains_m A B = (no_wrap A \<and> no_wrap B \<and> contains A B)"
proof
  assume c: "contains_m A B"
  then have B: "no_wrap B" and o: "base A \<le> base B" "end_r B \<le> end_r A"
    by (auto simp: contains_m_def no_wrap_iff)
  from c have "\<not> end_r A < base A" by (auto simp: contains_m_def)
  then have A: "no_wrap A" by (simp add: no_wrap_iff)
  from o show "no_wrap A \<and> no_wrap B \<and> contains A B"
    by (simp add: A B contains_def word_le_nat_alt unat_end_r)
next
  assume a: "no_wrap A \<and> no_wrap B \<and> contains A B"
  then show "contains_m A B"
    by (simp add: contains_m_def contains_def word_le_nat_alt unat_end_r no_wrap_iff [symmetric])
qed

lemma contains_address_m_iff: "no_wrap r \<Longrightarrow> contains_address_m r a = contains_address r a"
  by (simp add: contains_address_m_def contains_address_def word_le_nat_alt word_less_nat_alt
      unat_end_r)

lemma addresses_m_eq: "no_wrap r \<Longrightarrow> addresses_m r = addresses r"
  by (simp add: addresses_m_def addresses_def contains_address_m_iff)

lemma range_eq_iff: "(B = A) = (base B = base A \<and> end_r B = end_r A)" for A B :: "'a::len VirtualRange"
  by (cases A; cases B) (auto simp: end_r_def)

lemma carve_machine:
  assumes "contains_m A B" and "unat (size_r B) mod PAGE_SIZE = 0"
  shows "\<exists>parts. carve A B = Inr parts
     \<and> \<Union>(addresses_m ` set parts) \<union> addresses_m B = addresses_m A
     \<and> (\<forall>p \<in> set parts. addresses_m p \<inter> addresses_m B = {})
     \<and> (\<forall>i j. i < j \<and> j < length parts \<longrightarrow> addresses_m (parts ! i) \<inter> addresses_m (parts ! j) = {})
     \<and> (\<forall>p \<in> set parts. contains_m A p \<and> addresses_m p \<noteq> {})
     \<and> (length parts = 0) = (B = A)
     \<and> (length parts = 1) = ((base B = base A) \<noteq> (end_r B = end_r A))
     \<and> (length parts = 2) = (base A < base B \<and> end_r B < end_r A)"
proof -
  let ?a = "base A" and ?b = "base B" and ?be = "end_r B" and ?ae = "end_r A"
  let ?P1 = "\<lparr>base = ?a, size_r = ?b - ?a\<rparr>"
  let ?P2 = "\<lparr>base = ?be, size_r = ?ae - ?be\<rparr>"
  from assms(1) have ord: "?a \<le> ?b" "?b \<le> ?be" "?be \<le> ?ae"
    by (auto simp: contains_m_def)
  have B: "addresses_m B = {x. ?b \<le> x \<and> x < ?be}" and A: "addresses_m A = {x. ?a \<le> x \<and> x < ?ae}"
    by (auto simp: addresses_m_def contains_address_m_def)
  consider (same) "?a = ?b" "?be = ?ae" | (left) "?a = ?b" "?be < ?ae"
    | (right) "?a < ?b" "?be = ?ae" | (hole) "?a < ?b" "?be < ?ae"
    using ord by fastforce
  then show ?thesis
  proof cases
    case same
    then have "B = A" by (simp add: range_eq_iff)
    then show ?thesis using assms(2) by (simp add: carve_def)
  next
    case left
    then have ne: "B \<noteq> A" by (auto simp: range_eq_iff)
    have c: "carve A B = Inr [?P2]"
      using assms(2) ne left by (simp add: carve_def)
    show ?thesis unfolding c using left ord ne
      by (auto simp: addresses_m_mk A B contains_m_def)
  next
    case right
    then have ne: "B \<noteq> A" by (auto simp: range_eq_iff)
    have c: "carve A B = Inr [?P1]"
      using assms(2) ne right by (simp add: carve_def)
    show ?thesis unfolding c using right ord ne
      by (auto simp: addresses_m_mk A B contains_m_def)
  next
    case hole
    then have ne: "B \<noteq> A" by (auto simp: range_eq_iff)
    have c: "carve A B = Inr [?P1, ?P2]"
      using assms(2) ne hole by (simp add: carve_def)
    have d: "addresses_m ?P1 \<inter> addresses_m ?P2 = {}"
      using ord by (auto simp: addresses_m_mk)
    have pw: "\<forall>i j. i < j \<and> j < length [?P1, ?P2] \<longrightarrow>
        addresses_m ([?P1, ?P2] ! i) \<inter> addresses_m ([?P1, ?P2] ! j) = {}"
    proof (intro allI impI)
      fix i j :: nat assume "i < j \<and> j < length [?P1, ?P2]"
      then have "i = 0" "j = Suc 0" by auto
      then show "addresses_m ([?P1, ?P2] ! i) \<inter> addresses_m ([?P1, ?P2] ! j) = {}"
        using d by simp
    qed
    have rest: "\<Union>(addresses_m ` set [?P1, ?P2]) \<union> addresses_m B = addresses_m A
       \<and> (\<forall>p \<in> set [?P1, ?P2]. addresses_m p \<inter> addresses_m B = {})
       \<and> (\<forall>p \<in> set [?P1, ?P2]. contains_m A p \<and> addresses_m p \<noteq> {})
       \<and> (length [?P1, ?P2] = 0) = (B = A)
       \<and> (length [?P1, ?P2] = 1) = ((base B = base A) \<noteq> (end_r B = end_r A))
       \<and> (length [?P1, ?P2] = 2) = (base A < base B \<and> end_r B < end_r A)"
      using hole ord ne by (auto simp: addresses_m_mk A B contains_m_def)
    show ?thesis unfolding c using pw rest by blast
  qed
qed


text \<open>
  Claim C1, amended. When \<open>B\<close> lies fully within \<open>A\<close>, the end of \<open>A\<close> does not wrap
  and the size of \<open>B\<close> is a multiple of the page size, \<open>A.carve(B)\<close> returns leftover
  ranges whose addresses, together with those of \<open>B\<close>, are exactly the addresses of
  \<open>A\<close>; the leftovers are disjoint from \<open>B\<close> and from each other, each lies within \<open>A\<close>
  and is not empty; there are none iff \<open>B = A\<close>, one iff \<open>B\<close> touches exactly one edge
  of \<open>A\<close>, and two iff \<open>B\<close> is strictly interior.
\<close>

theorem carve_leftover:
  assumes "contains A B" and "no_wrap A" and "unat (size_r B) mod PAGE_SIZE = 0"
  shows "\<exists>parts. carve A B = Inr parts
     \<and> \<Union>(addresses ` set parts) \<union> addresses B = addresses A
     \<and> (\<forall>p \<in> set parts. addresses p \<inter> addresses B = {})
     \<and> (\<forall>i j. i < j \<and> j < length parts \<longrightarrow> addresses (parts ! i) \<inter> addresses (parts ! j) = {})
     \<and> (\<forall>p \<in> set parts. contains A p \<and> addresses p \<noteq> {})
     \<and> (length parts = 0) = (B = A)
     \<and> (length parts = 1) = ((base B = base A) \<noteq> (end_nat B = end_nat A))
     \<and> (length parts = 2) = (base A < base B \<and> end_nat B < end_nat A)"
proof -
  from assms(1,2) have B: "no_wrap B" by (rule contains_no_wrap)
  with assms(1,2) have m: "contains_m A B" by (simp add: contains_m_iff)
  from carve_machine [OF m assms(3)] obtain parts where
    c: "carve A B = Inr parts"
    and u: "\<Union>(addresses_m ` set parts) \<union> addresses_m B = addresses_m A"
    and dB: "\<forall>p \<in> set parts. addresses_m p \<inter> addresses_m B = {}"
    and pw: "\<forall>i j. i < j \<and> j < length parts \<longrightarrow>
        addresses_m (parts ! i) \<inter> addresses_m (parts ! j) = {}"
    and w: "\<forall>p \<in> set parts. contains_m A p \<and> addresses_m p \<noteq> {}"
    and n0: "(length parts = 0) = (B = A)"
    and n1: "(length parts = 1) = ((base B = base A) \<noteq> (end_r B = end_r A))"
    and n2: "(length parts = 2) = (base A < base B \<and> end_r B < end_r A)"
    by (elim exE conjE)
  have P: "no_wrap p \<and> contains A p \<and> addresses_m p = addresses p" if "p \<in> set parts" for p
    using w that by (auto simp: contains_m_iff addresses_m_eq)
  have e: "(end_r B = end_r A) = (end_nat B = end_nat A)"
    "(end_r B < end_r A) = (end_nat B < end_nat A)"
    using assms(2) B by (simp_all add: word_less_nat_alt word_unat_eq_iff unat_end_r)
  have 1: "\<Union>(addresses ` set parts) \<union> addresses B = addresses A"
    using u P assms(2) B by (simp add: addresses_m_eq)
  have 2: "\<forall>p \<in> set parts. addresses p \<inter> addresses B = {}"
    using dB P B by (simp add: addresses_m_eq)
  have 3: "\<forall>i j. i < j \<and> j < length parts \<longrightarrow> addresses (parts ! i) \<inter> addresses (parts ! j) = {}"
  proof (intro allI impI)
    fix i j assume ij: "i < j \<and> j < length parts"
    then have "parts ! i \<in> set parts" "parts ! j \<in> set parts" by simp_all
    with pw ij P show "addresses (parts ! i) \<inter> addresses (parts ! j) = {}" by metis
  qed
  have 4: "\<forall>p \<in> set parts. contains A p \<and> addresses p \<noteq> {}"
    using w P by metis
  have 5: "(length parts = 1) = ((base B = base A) \<noteq> (end_nat B = end_nat A))"
    using n1 by (simp only: e)
  have 6: "(length parts = 2) = (base A < base B \<and> end_nat B < end_nat A)"
    using n2 by (simp only: e)
  show ?thesis
    by (rule exI [of _ parts]) (intro conjI c 1 2 3 4 n0 5 6)
qed

theorem carve_leftover_witness:
  "contains \<lparr>base = 0x1000 :: 32 word, size_r = 0x4000\<rparr> \<lparr>base = 0x2000, size_r = 0x1000\<rparr>
   \<and> no_wrap \<lparr>base = 0x1000 :: 32 word, size_r = 0x4000\<rparr>
   \<and> carve \<lparr>base = 0x1000 :: 32 word, size_r = 0x4000\<rparr> \<lparr>base = 0x2000, size_r = 0x1000\<rparr>
       = Inr [\<lparr>base = 0x1000, size_r = 0x1000\<rparr>, \<lparr>base = 0x3000, size_r = 0x2000\<rparr>]
   \<and> addresses \<lparr>base = 0x1000 :: 32 word, size_r = 0x1000\<rparr> \<union> addresses \<lparr>base = 0x3000, size_r = 0x2000\<rparr>
       \<union> addresses \<lparr>base = 0x2000, size_r = 0x1000\<rparr> = addresses \<lparr>base = 0x1000, size_r = 0x4000\<rparr>"
proof -
  let ?A = "\<lparr>base = 0x1000 :: 32 word, size_r = 0x4000\<rparr>"
  let ?B = "\<lparr>base = 0x2000 :: 32 word, size_r = 0x1000\<rparr>"
  have h1: "contains ?A ?B" by (simp add: contains_def end_nat_def)
  have h2: "no_wrap ?A" by (simp add: no_wrap_def end_nat_def)
  have h3: "unat (size_r ?B) mod PAGE_SIZE = 0" by (simp add: PAGE_SIZE_def)
  have c: "carve ?A ?B = Inr [\<lparr>base = 0x1000, size_r = 0x1000\<rparr>, \<lparr>base = 0x3000, size_r = 0x2000\<rparr>]"
    by (simp add: carve_def PAGE_SIZE_def end_r_def)
  from carve_leftover [OF h1 h2 h3] show ?thesis
    unfolding c using h1 h2 by simp
qed

text \<open>
  Claim C1 as stated fails for a range \<open>A\<close> that reaches the top of the address
  space, whose \<open>end()\<close> wraps to 0: \<open>carve\<close> compares the wrapped ends and loses the
  upper leftover. For \<open>A = [0xFFFFE000, 2 ^ 32)\<close> the first page \<open>B\<close> of \<open>A\<close> leaves no
  part although \<open>B \<noteq> A\<close>, and for \<open>A = [0xFFFFD000, 2 ^ 32)\<close> the interior page at
  \<open>0xFFFFE000\<close> leaves one part only.
\<close>

theorem carve_top_of_address_space_counterexample:
  "contains \<lparr>base = 0xFFFFE000 :: 32 word, size_r = 0x2000\<rparr> \<lparr>base = 0xFFFFE000, size_r = 0x1000\<rparr>
   \<and> unat (size_r \<lparr>base = 0xFFFFE000 :: 32 word, size_r = 0x1000\<rparr>) mod PAGE_SIZE = 0
   \<and> \<lparr>base = 0xFFFFE000 :: 32 word, size_r = 0x1000\<rparr> \<noteq> \<lparr>base = 0xFFFFE000, size_r = 0x2000\<rparr>
   \<and> carve \<lparr>base = 0xFFFFE000 :: 32 word, size_r = 0x2000\<rparr> \<lparr>base = 0xFFFFE000, size_r = 0x1000\<rparr>
       = Inr []
   \<and> contains \<lparr>base = 0xFFFFD000 :: 32 word, size_r = 0x3000\<rparr> \<lparr>base = 0xFFFFE000, size_r = 0x1000\<rparr>
   \<and> carve \<lparr>base = 0xFFFFD000 :: 32 word, size_r = 0x3000\<rparr> \<lparr>base = 0xFFFFE000, size_r = 0x1000\<rparr>
       = Inr [\<lparr>base = 0xFFFFD000, size_r = 0x1000\<rparr>]"
  by (simp add: contains_def end_nat_def carve_def PAGE_SIZE_def end_r_def)

text \<open>
  Claim C6. \<open>carve\<close> ends in the fatal assertion exactly when the size of the taken
  range is not a multiple of the page size. It never produces the recoverable error
  \<open>EINVAL\<close>, and for a taken range whose size is a multiple of the page size it
  returns its list of parts.
\<close>

theorem carve_verify_iff:
  "(carve this taken = Inl VERIFY_failed) = (unat (size_r taken) mod PAGE_SIZE \<noteq> 0)
   \<and> carve this taken \<noteq> Inl EINVAL
   \<and> ((unat (size_r taken) mod PAGE_SIZE = 0) = (\<exists>parts. carve this taken = Inr parts))"
  by (simp add: carve_def)

section \<open>Properties of expand_to_page_boundaries\<close>

lemma PAGE_SIZE_pos: "0 < PAGE_SIZE"
  by (simp add: PAGE_SIZE_def)

lemma round_up_nat_ge: "n \<le> round_up_nat n"
proof -
  let ?m = "n + (PAGE_SIZE - 1)"
  have "?m mod PAGE_SIZE \<le> PAGE_SIZE - 1"
    using PAGE_SIZE_pos mod_less_divisor [of PAGE_SIZE "n + (PAGE_SIZE - 1)"] by linarith
  moreover have "?m div PAGE_SIZE * PAGE_SIZE = ?m - ?m mod PAGE_SIZE"
    by (simp add: minus_mod_eq_div_mult)
  ultimately show ?thesis unfolding round_up_nat_def by linarith
qed

lemma round_up_nat_aligned: "round_up_nat n mod PAGE_SIZE = 0"
  unfolding round_up_nat_def by simp

lemma round_up_nat_mono: "m \<le> n \<Longrightarrow> round_up_nat m \<le> round_up_nat n"
  unfolding round_up_nat_def by (simp add: div_le_mono)

lemma round_up_nat_least:
  assumes "n \<le> e" and "e mod PAGE_SIZE = 0"
  shows "round_up_nat n \<le> e"
proof -
  from assms(2) have "e = e div PAGE_SIZE * PAGE_SIZE" by auto
  then obtain k where k: "e = k * PAGE_SIZE" ..
  have "n + (PAGE_SIZE - 1) < Suc k * PAGE_SIZE"
    using assms(1) k PAGE_SIZE_pos by simp
  then have "(n + (PAGE_SIZE - 1)) div PAGE_SIZE < Suc k"
    by (rule less_mult_imp_div_less)
  then have "(n + (PAGE_SIZE - 1)) div PAGE_SIZE \<le> k"
    by (simp only: less_Suc_eq_le)
  then have "(n + (PAGE_SIZE - 1)) div PAGE_SIZE * PAGE_SIZE \<le> k * PAGE_SIZE"
    by (rule mult_le_mono1)
  then show ?thesis by (simp add: round_up_nat_def k)
qed

lemma round_up_nat_id: "n mod PAGE_SIZE = 0 \<Longrightarrow> round_up_nat n = n"
  by (simp add: round_up_nat_least round_up_nat_ge order_antisym)

lemma round_down_le: "n div PAGE_SIZE * PAGE_SIZE \<le> n"
  by simp

lemma round_down_greatest:
  assumes "b \<le> n" and "b mod PAGE_SIZE = 0"
  shows "b \<le> n div PAGE_SIZE * PAGE_SIZE"
proof -
  from assms(2) have "b = b div PAGE_SIZE * PAGE_SIZE" by auto
  then obtain k where k: "b = k * PAGE_SIZE" ..
  have "k \<le> n div PAGE_SIZE"
    using assms(1) k PAGE_SIZE_pos by (metis div_le_mono div_mult_self_is_m)
  then show ?thesis by (simp add: k mult_le_mono1)
qed

lemma wrap_add_iff: "(address + sz < address) = (2 ^ LENGTH('a) \<le> unat address + unat sz)"
  for address sz :: "'a::len word"
  by (metis no_olen_add_nat not_le)




lemma unat_of_nat_small: "n < 2 ^ LENGTH('a) \<Longrightarrow> unat (word_of_nat n :: 'a::len word) = n"
  by (simp add: unat_of_nat)

lemma unat_page_base: "unat (page_base a) = unat a div PAGE_SIZE * PAGE_SIZE"
  for a :: "'a::len word"
proof -
  have "unat a div PAGE_SIZE * PAGE_SIZE \<le> unat a" by (rule round_down_le)
  also have "unat a < 2 ^ LENGTH('a)" by (rule unsigned_less)
  finally show ?thesis unfolding page_base_def by (rule unat_of_nat_small)
qed

lemma unat_page_round_up:
  "\<not> page_round_up_would_wrap x \<Longrightarrow> unat (page_round_up x) = round_up_nat (unat x)"
  by (simp add: page_round_up_would_wrap_def page_round_up_def unat_of_nat_small)

lemma expand_success:
  fixes address sz :: "'a::len word"
  assumes nowrap: "unat address + unat sz < 2 ^ LENGTH('a)"
    and noround: "round_up_nat (unat address + unat sz) < 2 ^ LENGTH('a)"
  shows "expand_to_page_boundaries address sz =
      Inr \<lparr>base = page_base address, size_r = page_round_up (address + sz) - page_base address\<rparr>"
    and "unat (page_round_up (address + sz) - page_base address) =
      round_up_nat (unat address + unat sz) - unat address div PAGE_SIZE * PAGE_SIZE"
    and "unat (page_round_up (address + sz)) = round_up_nat (unat address + unat sz)"
proof -
  have sum: "unat (address + sz) = unat address + unat sz"
    using nowrap by (simp add: unat_add_lem)
  have "round_up_nat (unat sz) \<le> round_up_nat (unat address + unat sz)"
    by (rule round_up_nat_mono) simp
  then have w1: "\<not> page_round_up_would_wrap sz"
    using noround by (simp add: page_round_up_would_wrap_def)
  have w2: "\<not> address + sz < address"
    using nowrap by (simp add: wrap_add_iff)
  have w3: "\<not> page_round_up_would_wrap (address + sz)"
    using noround by (simp add: page_round_up_would_wrap_def sum)
  show "expand_to_page_boundaries address sz =
      Inr \<lparr>base = page_base address, size_r = page_round_up (address + sz) - page_base address\<rparr>"
    using w1 w2 w3 by (simp add: expand_to_page_boundaries_def Let_def)
  show up: "unat (page_round_up (address + sz)) = round_up_nat (unat address + unat sz)"
    using w3 by (simp add: unat_page_round_up sum)
  have "unat address div PAGE_SIZE * PAGE_SIZE \<le> unat address" by (rule round_down_le)
  also have "unat address \<le> unat address + unat sz" by simp
  also have "\<dots> \<le> round_up_nat (unat address + unat sz)" by (rule round_up_nat_ge)
  finally have "page_base address \<le> page_round_up (address + sz)"
    by (simp add: word_le_nat_alt up unat_page_base)
  then show "unat (page_round_up (address + sz) - page_base address) =
      round_up_nat (unat address + unat sz) - unat address div PAGE_SIZE * PAGE_SIZE"
    by (simp add: unat_sub up unat_page_base)
qed

lemma expand_failure:
  fixes address sz :: "'a::len word"
  assumes "2 ^ LENGTH('a) \<le> unat address + unat sz \<or>
           2 ^ LENGTH('a) \<le> round_up_nat (unat address + unat sz)"
  shows "expand_to_page_boundaries address sz = Inl EINVAL"
proof (cases "2 ^ LENGTH('a) \<le> unat address + unat sz")
  case True
  then show ?thesis by (simp add: expand_to_page_boundaries_def wrap_add_iff)
next
  case False
  then have sum: "unat (address + sz) = unat address + unat sz"
    by (simp add: unat_add_lem [symmetric] not_le)
  from False assms have "page_round_up_would_wrap (address + sz)"
    by (simp add: page_round_up_would_wrap_def sum)
  then show ?thesis by (simp add: expand_to_page_boundaries_def)
qed

text \<open>
  Claim C3. When \<open>address + size\<close> does not overflow and rounding it up to a page
  boundary does not overflow either, \<open>expand_to_page_boundaries\<close> succeeds; base,
  size and end of the result are multiples of the page size, the end does not wrap,
  the base is at or below \<open>address\<close>, the end at or above \<open>address + size\<close>, and no
  range with page-aligned base and end, base at or below \<open>address\<close> and end (taken in
  unbounded arithmetic) at or above \<open>address + size\<close>, is shorter.
\<close>

theorem expand_to_page_boundaries_minimal:
  fixes address sz :: "'a::len word"
  assumes "unat address + unat sz < 2 ^ LENGTH('a)"
    and "round_up_nat (unat address + unat sz) < 2 ^ LENGTH('a)"
  shows "\<exists>r. expand_to_page_boundaries address sz = Inr r
     \<and> unat (base r) mod PAGE_SIZE = 0 \<and> unat (size_r r) mod PAGE_SIZE = 0
     \<and> unat (end_r r) mod PAGE_SIZE = 0
     \<and> unat (end_r r) = unat (base r) + unat (size_r r)
     \<and> base r \<le> address \<and> address + sz \<le> end_r r
     \<and> unat address + unat sz \<le> unat (end_r r)
     \<and> (\<forall>r' :: 'a VirtualRange. unat (base r') mod PAGE_SIZE = 0
            \<and> (unat (base r') + unat (size_r r')) mod PAGE_SIZE = 0
            \<and> unat (base r') \<le> unat address
            \<and> unat address + unat sz \<le> unat (base r') + unat (size_r r')
          \<longrightarrow> unat (size_r r) \<le> unat (size_r r'))"
proof -
  let ?lo = "unat address div PAGE_SIZE * PAGE_SIZE"
  let ?hi = "round_up_nat (unat address + unat sz)"
  let ?r = "\<lparr>base = page_base address, size_r = page_round_up (address + sz) - page_base address\<rparr>"
  note s = expand_success [OF assms]
  have sum: "unat (address + sz) = unat address + unat sz"
    using assms(1) by (simp add: unat_add_lem)
  have lo_le: "?lo \<le> unat address" by (rule round_down_le)
  have hi_ge: "unat address + unat sz \<le> ?hi" by (rule round_up_nat_ge)
  have e: "end_r ?r = page_round_up (address + sz)" by simp
  have 1: "unat (base ?r) mod PAGE_SIZE = 0" by (simp add: unat_page_base)
  have lh: "?lo \<le> ?hi" using lo_le hi_ge by linarith
  have 2: "unat (size_r ?r) mod PAGE_SIZE = 0"
    by (simp add: s(2) round_up_nat_def diff_mult_distrib [symmetric])
  have 3: "unat (end_r ?r) mod PAGE_SIZE = 0"
    by (simp only: e s(3) round_up_nat_aligned)
  have 4: "unat (end_r ?r) = unat (base ?r) + unat (size_r ?r)"
  proof -
    have "unat (end_r ?r) = ?hi" by (simp only: e s(3))
    moreover have "unat (base ?r) = ?lo" by (simp add: unat_page_base)
    moreover have "unat (size_r ?r) = ?hi - ?lo" by (simp add: s(2))
    ultimately show ?thesis using lh by linarith
  qed
  have 5: "base ?r \<le> address" by (simp add: word_le_nat_alt unat_page_base)
  have 6: "address + sz \<le> end_r ?r"
    using hi_ge by (simp only: e word_le_nat_alt s(3) sum)
  have 7: "unat address + unat sz \<le> unat (end_r ?r)"
    using hi_ge by (simp only: e s(3))
  have 8: "unat (size_r ?r) \<le> unat (size_r r')"
    if "unat (base r') mod PAGE_SIZE = 0"
      and "(unat (base r') + unat (size_r r')) mod PAGE_SIZE = 0"
      and "unat (base r') \<le> unat address"
      and "unat address + unat sz \<le> unat (base r') + unat (size_r r')" for r' :: "'a VirtualRange"
  proof -
    have "?hi \<le> unat (base r') + unat (size_r r')"
      using that(4,2) by (rule round_up_nat_least)
    moreover have "unat (base r') \<le> ?lo"
      using that(3,1) by (rule round_down_greatest)
    ultimately show ?thesis by (simp add: s(2))
  qed
  have 9: "\<forall>r' :: 'a VirtualRange. unat (base r') mod PAGE_SIZE = 0
            \<and> (unat (base r') + unat (size_r r')) mod PAGE_SIZE = 0
            \<and> unat (base r') \<le> unat address
            \<and> unat address + unat sz \<le> unat (base r') + unat (size_r r')
          \<longrightarrow> unat (size_r ?r) \<le> unat (size_r r')"
    by (intro allI impI) (elim conjE, rule 8; assumption)
  show ?thesis
    by (rule exI [of _ ?r]) (intro conjI s(1) 1 2 3 4 5 6 7 9)
qed

theorem expand_to_page_boundaries_minimal_witness:
  "unat (0x1234 :: 32 word) + unat (0x100 :: 32 word) < 2 ^ LENGTH(32)
   \<and> round_up_nat (unat (0x1234 :: 32 word) + unat (0x100 :: 32 word)) < 2 ^ LENGTH(32)
   \<and> expand_to_page_boundaries (0x1234 :: 32 word) 0x100 = Inr \<lparr>base = 0x1000, size_r = 0x1000\<rparr>
   \<and> unat (size_r \<lparr>base = 0x1000 :: 32 word, size_r = 0x1000\<rparr>)
       \<le> unat (size_r \<lparr>base = 0 :: 32 word, size_r = 0x3000\<rparr>)"
proof -
  have h1: "unat (0x1234 :: 32 word) + unat (0x100 :: 32 word) < 2 ^ LENGTH(32)" by simp
  have h2: "round_up_nat (unat (0x1234 :: 32 word) + unat (0x100 :: 32 word)) < 2 ^ LENGTH(32)"
    by (simp add: round_up_nat_def PAGE_SIZE_def)
  have v: "expand_to_page_boundaries (0x1234 :: 32 word) 0x100 = Inr \<lparr>base = 0x1000, size_r = 0x1000\<rparr>"
    by (simp add: expand_to_page_boundaries_def page_round_up_would_wrap_def round_up_nat_def
        page_round_up_def page_base_def PAGE_SIZE_def)
  from expand_to_page_boundaries_minimal [OF h1 h2]
  have "unat (size_r \<lparr>base = 0x1000 :: 32 word, size_r = 0x1000\<rparr>)
       \<le> unat (size_r \<lparr>base = 0 :: 32 word, size_r = 0x3000\<rparr>)"
    unfolding v by (simp add: PAGE_SIZE_def)
  with h1 h2 v show ?thesis by blast
qed

text \<open>
  Claim C4. \<open>expand_to_page_boundaries\<close> fails with \<open>EINVAL\<close> iff \<open>address + size\<close>
  wraps the address space or rounding the end up to a page boundary would wrap; it
  returns a range in every other case, and never ends in an assertion.
\<close>

theorem expand_to_page_boundaries_einval_iff:
  fixes address sz :: "'a::len word"
  shows "(expand_to_page_boundaries address sz = Inl EINVAL) =
       (2 ^ LENGTH('a) \<le> unat address + unat sz \<or>
        2 ^ LENGTH('a) \<le> round_up_nat (unat address + unat sz))
     \<and> (\<exists>r. expand_to_page_boundaries address sz = Inr r) =
       (unat address + unat sz < 2 ^ LENGTH('a) \<and>
        round_up_nat (unat address + unat sz) < 2 ^ LENGTH('a))
     \<and> expand_to_page_boundaries address sz \<noteq> Inl VERIFY_failed"
proof (cases "2 ^ LENGTH('a) \<le> unat address + unat sz \<or>
           2 ^ LENGTH('a) \<le> round_up_nat (unat address + unat sz)")
  case True
  from expand_failure [OF True] True show ?thesis by auto
next
  case False
  then have "unat address + unat sz < 2 ^ LENGTH('a)"
    "round_up_nat (unat address + unat sz) < 2 ^ LENGTH('a)" by auto
  from expand_success(1) [OF this] False show ?thesis by auto
qed

text \<open>
  Claim C10. For a page-aligned address, \<open>expand_to_page_boundaries address 0\<close>
  succeeds and returns the empty range at that address: base \<open>address\<close>, size 0.
\<close>

theorem expand_to_page_boundaries_zero:
  fixes address :: "'a::len word"
  assumes "unat address mod PAGE_SIZE = 0"
  shows "expand_to_page_boundaries address 0 = Inr \<lparr>base = address, size_r = 0\<rparr>"
proof -
  have r: "round_up_nat (unat address) = unat address"
    using assms by (rule round_up_nat_id)
  have lt: "unat address < 2 ^ LENGTH('a)" by (rule unsigned_less)
  have b: "page_base address = address"
    using assms by (simp add: page_base_def mod_0_imp_dvd)
  have e: "page_round_up address = address"
    by (simp add: page_round_up_def r)
  from expand_success(1) [of address 0] lt r show ?thesis by (simp add: b e)
qed

theorem expand_to_page_boundaries_zero_witness:
  "unat (0x3000 :: 32 word) mod PAGE_SIZE = 0
   \<and> expand_to_page_boundaries (0x3000 :: 32 word) 0 = Inr \<lparr>base = 0x3000, size_r = 0\<rparr>"
proof -
  have h: "unat (0x3000 :: 32 word) mod PAGE_SIZE = 0" by (simp add: PAGE_SIZE_def)
  from expand_to_page_boundaries_zero [OF h] h show ?thesis by simp
qed


section \<open>Properties of intersect\<close>

lemma overlaps_nat:
  fixes A B :: "'a::len VirtualRange"
  shows "overlaps A B = (max (unat (base A)) (unat (base B)) < min (end_nat A) (end_nat B))"
proof
  assume "overlaps A B"
  then obtain a :: "'a word" where "unat (base A) \<le> unat a" "unat a < end_nat A"
    "unat (base B) \<le> unat a" "unat a < end_nat B"
    by (auto simp: overlaps_def contains_address_def)
  then show "max (unat (base A)) (unat (base B)) < min (end_nat A) (end_nat B)" by auto
next
  assume *: "max (unat (base A)) (unat (base B)) < min (end_nat A) (end_nat B)"
  have m: "unat (max (base A) (base B)) = max (unat (base A)) (unat (base B))"
    by (simp add: max_def word_le_nat_alt)
  from * have "contains_address A (max (base A) (base B)) \<and> contains_address B (max (base A) (base B))"
    unfolding contains_address_def m by auto
  then show "overlaps A B" unfolding overlaps_def ..
qed

lemma verify_no_wrap:
  assumes "max (base A) (base B) < min (end_r A) (end_r B)"
  shows "no_wrap A \<and> no_wrap B"
proof -
  from assms have "base A < end_r A" "base B < end_r B" by auto
  then have "\<not> end_r A < base A" "\<not> end_r B < base B" by auto
  then show ?thesis by (simp add: no_wrap_iff)
qed

lemma verify_iff:
  "(max (base A) (base B) < min (end_r A) (end_r B)) = (overlaps A B \<and> no_wrap A \<and> no_wrap B)"
proof -
  have m: "unat (max (base A) (base B)) = max (unat (base A)) (unat (base B))"
    by (simp add: max_def word_le_nat_alt)
  have n: "unat (min (end_r A) (end_r B)) = min (unat (end_r A)) (unat (end_r B))"
    by (simp add: min_def word_le_nat_alt)
  show ?thesis
  proof (cases "no_wrap A \<and> no_wrap B")
    case True
    then show ?thesis
      by (simp add: overlaps_nat word_less_nat_alt m n unat_end_r)
  next
    case False
    then show ?thesis using verify_no_wrap [of A B] by blast
  qed
qed

lemma intersect_cases:
  "intersect A B =
     (if A = B then Inr A
      else if overlaps A B \<and> no_wrap A \<and> no_wrap B
           then Inr \<lparr>base = max (base A) (base B),
                     size_r = min (end_r A) (end_r B) - max (base A) (base B)\<rparr>
           else Inl VERIFY_failed)"
  by (simp only: intersect_def Let_def verify_iff if_not_P if_P not_not split: if_splits) simp

text \<open>
  Claim C5, amended. For ranges \<open>A\<close> and \<open>B\<close> that share an address and that, unless
  they are identical, both end below the top of the address space, \<open>A.intersect(B)\<close>
  returns a range with base \<open>max(A.base, B.base)\<close> and end \<open>min(A.end, B.end)\<close> that
  lies within both, whose addresses are the common addresses, and that is \<open>A\<close> when
  \<open>A = B\<close>; the assertion is then unreachable. For two different ranges that share no
  address, or of which one reaches the top of the address space, the call ends in
  the fatal assertion. For two identical ranges the call returns that range, whether
  or not it is empty.
\<close>

theorem intersect_spec:
  "(overlaps A B \<and> (A = B \<or> no_wrap A \<and> no_wrap B) \<longrightarrow>
      (\<exists>r. intersect A B = Inr r
         \<and> base r = max (base A) (base B) \<and> end_nat r = min (end_nat A) (end_nat B)
         \<and> contains A r \<and> contains B r
         \<and> addresses r = addresses A \<inter> addresses B
         \<and> (A = B \<longrightarrow> r = A)))
   \<and> (A \<noteq> B \<and> \<not> overlaps A B \<longrightarrow> intersect A B = Inl VERIFY_failed)
   \<and> (A \<noteq> B \<and> (\<not> no_wrap A \<or> \<not> no_wrap B) \<longrightarrow> intersect A B = Inl VERIFY_failed)
   \<and> (A = B \<longrightarrow> intersect A B = Inr A)
   \<and> intersect A B \<noteq> Inl EINVAL"
proof (intro conjI impI)
  assume pre: "overlaps A B \<and> (A = B \<or> no_wrap A \<and> no_wrap B)"
  let ?nb = "max (base A) (base B)" and ?ne = "min (end_r A) (end_r B)"
  let ?r = "\<lparr>base = ?nb, size_r = ?ne - ?nb\<rparr>"
  show "\<exists>r. intersect A B = Inr r
         \<and> base r = max (base A) (base B) \<and> end_nat r = min (end_nat A) (end_nat B)
         \<and> contains A r \<and> contains B r
         \<and> addresses r = addresses A \<inter> addresses B
         \<and> (A = B \<longrightarrow> r = A)"
  proof (cases "A = B")
    case True
    then have "intersect A B = Inr A" by (simp add: intersect_def)
    then show ?thesis using True
      by (simp add: contains_def)
  next
    case False
    with pre have nw: "no_wrap A" "no_wrap B" and ov: "overlaps A B" by auto
    then have lt: "?nb < ?ne" by (simp only: verify_iff)
    from False nw ov have i: "intersect A B = Inr ?r"
      by (simp only: intersect_cases if_False if_True simp_thms)
    have m: "unat ?nb = max (unat (base A)) (unat (base B))"
      by (simp add: max_def word_le_nat_alt)
    have n: "unat ?ne = min (end_nat A) (end_nat B)"
      using nw by (simp add: min_def word_le_nat_alt unat_end_r)
    have er: "end_r ?r = ?ne" by (rule end_r_mk)
    have br: "base ?r = ?nb" by simp
    have "\<not> ?ne < ?nb" using lt by (simp only: not_less less_imp_le)
    then have "no_wrap ?r" unfolding no_wrap_iff er br .
    then have "end_nat ?r = unat (end_r ?r)" by (simp only: unat_end_r)
    then have e: "end_nat ?r = min (end_nat A) (end_nat B)" using n by (simp only: er)
    have b: "unat (base ?r) = max (unat (base A)) (unat (base B))" using m by (simp only: br)
    have 1: "contains A ?r" unfolding contains_def e b by simp
    have 2: "contains B ?r" unfolding contains_def e b by simp
    have 3: "addresses ?r = addresses A \<inter> addresses B"
      unfolding addresses_def contains_address_def e b by auto
    note 4 = br
    have 5: "A = B \<longrightarrow> ?r = A" using False by simp
    show ?thesis
      by (rule exI [of _ ?r]) (intro conjI i 4 e 1 2 3 5)
  qed
next
  assume "A \<noteq> B \<and> \<not> overlaps A B"
  then show "intersect A B = Inl VERIFY_failed"
    by (simp add: intersect_cases)
next
  assume "A \<noteq> B \<and> (\<not> no_wrap A \<or> \<not> no_wrap B)"
  then show "intersect A B = Inl VERIFY_failed"
    by (auto simp: intersect_cases)
next
  assume "A = B"
  then show "intersect A B = Inr A" by (simp add: intersect_def)
next
  show "intersect A B \<noteq> Inl EINVAL"
    by (simp add: intersect_def Let_def)
qed

theorem intersect_spec_witness:
  "overlaps \<lparr>base = 0x1000 :: 32 word, size_r = 0x2000\<rparr> \<lparr>base = 0x2000, size_r = 0x2000\<rparr>
   \<and> no_wrap \<lparr>base = 0x1000 :: 32 word, size_r = 0x2000\<rparr>
   \<and> no_wrap \<lparr>base = 0x2000 :: 32 word, size_r = 0x2000\<rparr>
   \<and> intersect \<lparr>base = 0x1000 :: 32 word, size_r = 0x2000\<rparr> \<lparr>base = 0x2000, size_r = 0x2000\<rparr>
       = Inr \<lparr>base = 0x2000, size_r = 0x1000\<rparr>
   \<and> contains \<lparr>base = 0x1000 :: 32 word, size_r = 0x2000\<rparr> \<lparr>base = 0x2000, size_r = 0x1000\<rparr>
   \<and> contains \<lparr>base = 0x2000 :: 32 word, size_r = 0x2000\<rparr> \<lparr>base = 0x2000, size_r = 0x1000\<rparr>
   \<and> \<not> overlaps \<lparr>base = 0x1000 :: 32 word, size_r = 0x1000\<rparr> \<lparr>base = 0x2000, size_r = 0x1000\<rparr>
   \<and> intersect \<lparr>base = 0x1000 :: 32 word, size_r = 0x1000\<rparr> \<lparr>base = 0x2000, size_r = 0x1000\<rparr>
       = Inl VERIFY_failed"
proof -
  let ?A = "\<lparr>base = 0x1000 :: 32 word, size_r = 0x2000\<rparr>"
  let ?B = "\<lparr>base = 0x2000 :: 32 word, size_r = 0x2000\<rparr>"
  let ?C = "\<lparr>base = 0x1000 :: 32 word, size_r = 0x1000\<rparr>"
  let ?D = "\<lparr>base = 0x2000 :: 32 word, size_r = 0x1000\<rparr>"
  have h1: "overlaps ?A ?B" by (simp add: overlaps_nat end_nat_def)
  have n1: "no_wrap ?A" "no_wrap ?B" by (simp_all add: no_wrap_def end_nat_def)
  have v: "intersect ?A ?B = Inr ?D" by (simp add: intersect_def end_r_def Let_def)
  have h2: "?C \<noteq> ?D \<and> \<not> overlaps ?C ?D" by (simp add: overlaps_nat end_nat_def)
  from intersect_spec [of ?A ?B] h1 n1 have "contains ?A ?D \<and> contains ?B ?D"
    unfolding v by simp
  moreover from intersect_spec [of ?C ?D] h2 have "intersect ?C ?D = Inl VERIFY_failed"
    by blast
  ultimately show ?thesis using h1 h2 v n1 by blast
qed

text \<open>
  Claim C5 as stated fails in two ways. Two identical empty ranges share no address,
  and \<open>intersect\<close> returns the range instead of ending in the assertion. The ranges
  \<open>[0xFFFFE000, 2 ^ 32)\<close> and \<open>[0xFFFFF000, 2 ^ 32)\<close> share the last page, and
  \<open>intersect\<close>, which compares the wrapped ends, ends in the assertion.
\<close>

theorem intersect_precondition_counterexample:
  "\<not> overlaps \<lparr>base = 0x1000 :: 32 word, size_r = 0\<rparr> \<lparr>base = 0x1000, size_r = 0\<rparr>
   \<and> intersect \<lparr>base = 0x1000 :: 32 word, size_r = 0\<rparr> \<lparr>base = 0x1000, size_r = 0\<rparr>
       = Inr \<lparr>base = 0x1000, size_r = 0\<rparr>
   \<and> overlaps \<lparr>base = 0xFFFFE000 :: 32 word, size_r = 0x2000\<rparr> \<lparr>base = 0xFFFFF000, size_r = 0x1000\<rparr>
   \<and> intersect \<lparr>base = 0xFFFFE000 :: 32 word, size_r = 0x2000\<rparr> \<lparr>base = 0xFFFFF000, size_r = 0x1000\<rparr>
       = Inl VERIFY_failed"
  by (simp add: overlaps_nat end_nat_def intersect_def end_r_def)


section \<open>The allocator of virtual ranges (kernel/memory/VirtualRangeAllocator.h)\<close>

text \<open>
  The two data members of \<open>VirtualRangeAllocator\<close>: the red-black tree of the free
  ranges, keyed by base address, and the total range. The member \<open>m_lock\<close> is not
  modelled: every operation holds it from start to end, so that the operations are
  the atomic steps of the model.
\<close>

record (overloaded) ('a::len) VirtualRangeAllocator =
  m_available_ranges :: "('a word, 'a VirtualRange) rbt"
  m_total_range :: "'a VirtualRange"


text \<open>
  Modelled from the spec: \<open>VirtualRangeAllocator.cpp\<close> is not among the sources; the
  operations below follow section 4.2 of the spec. A result is \<open>Inl VERIFY_failed\<close>
  when a fatal assertion ends the call (the one of \<open>carve\<close>), otherwise the returned
  value (\<open>None\<close> for "nothing") with the allocator after the call.

  \<open>initialize_with_range\<close> seeds a new allocator with one free range covering the
  whole extent.
\<close>

definition initialize_with_range :: "'a::len word \<Rightarrow> 'a word \<Rightarrow> 'a VirtualRangeAllocator" where
  "initialize_with_range base' sz =
     \<lparr>m_available_ranges = RBT.insert base' \<lparr>base = base', size_r = sz\<rparr> RBT.empty,
      m_total_range = \<lparr>base = base', size_r = sz\<rparr>\<rparr>"










subsection \<open>The state invariant\<close>









subsection \<open>The parts left over by carve\<close>






subsection \<open>The invariant on sets of ranges\<close>



subsection \<open>The tree of free ranges\<close>









subsection \<open>The operations keep the invariant\<close>




























subsection \<open>The effect of allocate_specific\<close>



















section \<open>Page directories and the registry of hardware roots (kernel/memory/PageDirectory.h)\<close>

text \<open>
  Modelled from the spec: \<open>PhysicalPage\<close> is declared in a header that is not among
  the sources. A physical page token reads out the physical address of its page
  (\<open>paddr()\<close>).
\<close>

record (overloaded) ('a::len) PhysicalPage =
  paddr :: "'a word"

text \<open>
  The data members of \<open>PageDirectory\<close>, but for the lock. A pointer or \<open>RefPtr\<close> may
  be null: \<open>None\<close>. The member \<open>m_pml4t\<close> exists on x86-64 only; on the other
  architecture it is never read. The address space is named by its identity.
\<close>

datatype arch = X86_64 | I386

type_synonym address_space_id = nat

record (overloaded) ('a::len) PageDirectory =
  m_space :: "address_space_id option"
  m_range_allocator :: "'a VirtualRangeAllocator"
  m_pml4t :: "'a PhysicalPage option"
  m_directory_table :: "'a PhysicalPage option"
  m_directory_pages :: "'a PhysicalPage option list"
  m_page_tables :: "'a word \<rightharpoonup> 'a PhysicalPage option"

text \<open>
  \<open>PageDirectory::cr3\<close>: the physical address of the top-level table of the
  architecture. Dereferencing a null \<open>RefPtr\<close> is the assertion of \<open>RefPtr\<close>.
\<close>

definition cr3 :: "arch \<Rightarrow> 'a::len PageDirectory \<Rightarrow> error + 'a word" where
  "cr3 a d =
     (case a of
        X86_64 \<Rightarrow> (case m_pml4t d of None \<Rightarrow> Inl VERIFY_failed | Some p \<Rightarrow> Inr (paddr p))
      | I386 \<Rightarrow> (case m_directory_table d of None \<Rightarrow> Inl VERIFY_failed | Some p \<Rightarrow> Inr (paddr p)))"

text \<open>
  Modelled from the spec: \<open>PageDirectory.cpp\<close> is not among the sources. The
  directories that exist are the objects of a store, addressed by their identity;
  the process-wide registry maps a hardware root address to the identity of the
  owning directory.
\<close>

type_synonym directory_id = nat

record (overloaded) ('a::len) directories =
  live :: "directory_id \<rightharpoonup> 'a PageDirectory"
  cr3_map :: "'a word \<rightharpoonup> directory_id"

text \<open>
  Modelled from the spec: \<open>PageDirectory::find_by_cr3\<close> (body not among the sources)
  is the lookup in the registry, from the hardware root address to the owning
  directory.
\<close>

definition find_by_cr3 :: "'a::len directories \<Rightarrow> 'a word \<Rightarrow> directory_id option" where
  "find_by_cr3 s root = cr3_map s root"

text \<open>
  Modelled from the spec: the end of the construction of a directory (in
  \<open>PageDirectory.cpp\<close>, not among the sources): the registry entry for the root of the
  directory is installed when the directory finishes construction.
\<close>

definition finish_construction ::
  "arch \<Rightarrow> 'a::len directories \<Rightarrow> directory_id \<Rightarrow> 'a PageDirectory \<Rightarrow> error + 'a directories" where
  "finish_construction a s i d =
     (case cr3 a d of
        Inl e \<Rightarrow> Inl e
      | Inr root \<Rightarrow> Inr \<lparr>live = (live s)(i \<mapsto> d), cr3_map = (cr3_map s)(root \<mapsto> i)\<rparr>)"

text \<open>
  Modelled from the spec: the destructor \<open>~PageDirectory\<close> (body not among the
  sources) removes the registry entry of the directory. The program destroys live
  directories only; the model gives the destruction of any other identity no state.
\<close>

definition destroy :: "arch \<Rightarrow> 'a::len directories \<Rightarrow> directory_id \<Rightarrow> error + 'a directories" where
  "destroy a s i =
     (case live s i of
        None \<Rightarrow> Inl VERIFY_failed
      | Some d \<Rightarrow>
          (case cr3 a d of
             Inl e \<Rightarrow> Inl e
           | Inr root \<Rightarrow> Inr \<lparr>live = (live s)(i := None), cr3_map = (cr3_map s)(root := None)\<rparr>))"

text \<open>
  A directory of the 32-bit architecture whose top-level table is the physical page
  at \<open>0x5000\<close>, with a range allocator for \<open>[0x1000, 0x5000)\<close>.
\<close>

definition directory_example :: "32 PageDirectory" where
  "directory_example =
     \<lparr>m_space = None,
      m_range_allocator = initialize_with_range 0x1000 0x4000,
      m_pml4t = None,
      m_directory_table = Some \<lparr>paddr = 0x5000\<rparr>,
      m_directory_pages = replicate 4 None,
      m_page_tables = Map.empty\<rparr>"

text \<open>
  Claim C9. Once a directory has finished construction, \<open>find_by_cr3\<close> applied to
  its \<open>cr3()\<close> value returns that same directory; once the directory has been
  destroyed, in the state right after construction or in any later state in which
  it is still live, \<open>find_by_cr3\<close> of the same value returns nothing.
\<close>

theorem find_by_cr3_registry:
  assumes "cr3 a d = Inr root"
  shows "\<exists>s'. finish_construction a s i d = Inr s'
      \<and> find_by_cr3 s' root = Some i \<and> live s' i = Some d
      \<and> (\<exists>s''. destroy a s' i = Inr s'' \<and> find_by_cr3 s'' root = None \<and> live s'' i = None)
      \<and> (\<forall>t. live t i = Some d \<longrightarrow>
            (\<exists>t'. destroy a t i = Inr t' \<and> find_by_cr3 t' root = None \<and> live t' i = None))"
  using assms by (simp add: finish_construction_def destroy_def find_by_cr3_def)

theorem find_by_cr3_registry_witness:
  "cr3 I386 directory_example = Inr 0x5000
   \<and> (\<exists>s'. finish_construction I386 \<lparr>live = Map.empty, cr3_map = Map.empty\<rparr> 1 directory_example = Inr s'
         \<and> find_by_cr3 s' 0x5000 = Some 1
         \<and> (\<exists>s''. destroy I386 s' 1 = Inr s'' \<and> find_by_cr3 s'' 0x5000 = None))"
proof -
  have h: "cr3 I386 directory_example = Inr 0x5000"
    by (simp add: cr3_def directory_example_def)
  from find_by_cr3_registry [OF h, of "\<lparr>live = Map.empty, cr3_map = Map.empty\<rparr>" 1]
  have "\<exists>s'. finish_construction I386 \<lparr>live = Map.empty, cr3_map = Map.empty\<rparr> 1 directory_example = Inr s'
         \<and> find_by_cr3 s' 0x5000 = Some 1
         \<and> (\<exists>s''. destroy I386 s' 1 = Inr s'' \<and> find_by_cr3 s'' 0x5000 = None)"
    by (elim conjE exE) (intro exI conjI; assumption)
  with h show ?thesis by (intro conjI)
qed

section \<open>Inode-backed VM objects (kernel/memory/PrivateInodeVMObject.cpp)\<close>

type_synonym page_id = nat
type_synonym vmobject_id = nat
type_synonym inode_id = nat

text \<open>
  Modelled from the spec: the physical pages and their allocator are not among the
  sources. A physical page has a reference count, the number of tokens that refer
  to it, and a content.
\<close>

record physical_page =
  ref_count :: nat
  content :: "nat list"

text \<open>
  Modelled from the spec: the base classes \<open>VMObject\<close> and \<open>InodeVMObject\<close> are not
  among the sources. A VM object is shared or private, is backed by an inode, and
  owns a sequence of physical-page tokens, one per page of its extent; a token is a
  counted reference to a physical page, or null while the page has not been faulted
  in.
\<close>

datatype vmobject_kind = Shared | Private

record vmobject =
  kind :: vmobject_kind
  m_inode :: inode_id
  m_physical_pages :: "page_id option list"

text \<open>
  Modelled from the spec: the VM objects and the physical pages that exist, each in
  a store addressed by identity, so that two objects can hold tokens for the same
  page.
\<close>

record vm_state =
  objects :: "vmobject_id \<rightharpoonup> vmobject"
  pages :: "page_id \<rightharpoonup> physical_page"

text \<open>
  Modelled from the spec: copying one token takes one more reference to its page;
  no page content is copied.
\<close>

definition ref :: "page_id \<Rightarrow> (page_id \<rightharpoonup> physical_page) \<Rightarrow> (page_id \<rightharpoonup> physical_page)" where
  "ref p ps = (case ps p of None \<Rightarrow> ps | Some pg \<Rightarrow> ps(p \<mapsto> pg\<lparr>ref_count := Suc (ref_count pg)\<rparr>))"

text \<open>
  Modelled from the spec: copying a token sequence by value copies every token that
  is not null.
\<close>

fun ref_all :: "page_id option list \<Rightarrow> (page_id \<rightharpoonup> physical_page) \<Rightarrow> (page_id \<rightharpoonup> physical_page)" where
  "ref_all [] ps = ps"
| "ref_all (None # ts) ps = ref_all ts ps"
| "ref_all (Some p # ts) ps = ref_all ts (ref p ps)"

text \<open>
  Modelled from the spec: the copy constructor \<open>InodeVMObject(other)\<close>, to which
  \<open>PrivateInodeVMObject(PrivateInodeVMObject const&)\<close> delegates: the new object is
  for the same inode and holds a copy of the token sequence of the other one.
\<close>

definition PrivateInodeVMObject_copy :: "vmobject \<Rightarrow> vmobject" where
  "PrivateInodeVMObject_copy other =
     \<lparr>kind = Private, m_inode = m_inode other, m_physical_pages = m_physical_pages other\<rparr>"

text \<open>
  \<open>PrivateInodeVMObject::try_clone\<close>:
  \<open>adopt_ref_if_nonnull(new (nothrow) PrivateInodeVMObject(*this))\<close>. The outcome of
  the allocation is a parameter: \<open>None\<close> when \<open>new (nothrow)\<close> returns null, otherwise
  the identity of the new object. The result is the null \<open>RefPtr\<close> (\<open>None\<close>) or the
  new object, with the state after the call. The call is defined for a live object
  \<open>this\<close> only.
\<close>

definition try_clone ::
  "vm_state \<Rightarrow> vmobject_id \<Rightarrow> vmobject_id option \<Rightarrow> (vmobject_id option \<times> vm_state) option" where
  "try_clone s this allocation =
     (case objects s this of
        None \<Rightarrow> None
      | Some other \<Rightarrow>
          (case allocation of
             None \<Rightarrow> Some (None, s)
           | Some new \<Rightarrow>
               Some (Some new,
                 \<lparr>objects = (objects s)(new \<mapsto> PrivateInodeVMObject_copy other),
                  pages = ref_all (m_physical_pages other) (pages s)\<rparr>)))"

text \<open>
  Modelled from the spec: the copy-on-write step of the fault handler replaces one
  token in the sequence of one object.
\<close>

definition set_page :: "vm_state \<Rightarrow> vmobject_id \<Rightarrow> nat \<Rightarrow> page_id option \<Rightarrow> vm_state" where
  "set_page s i n token =
     (case objects s i of
        None \<Rightarrow> s
      | Some obj \<Rightarrow>
          s\<lparr>objects := (objects s)(i \<mapsto> obj\<lparr>m_physical_pages := (m_physical_pages obj)[n := token]\<rparr>)\<rparr>)"

text \<open>A parent with three pages, the middle one not faulted in, in a state with two physical pages.\<close>

definition clone_example_parent :: vmobject where
  "clone_example_parent = \<lparr>kind = Private, m_inode = 7, m_physical_pages = [Some 10, None, Some 11]\<rparr>"

definition clone_example_state :: vm_state where
  "clone_example_state =
     \<lparr>objects = Map.empty(1 \<mapsto> clone_example_parent),
      pages = Map.empty(10 \<mapsto> \<lparr>ref_count = 1, content = [1, 2]\<rparr>,
                        11 \<mapsto> \<lparr>ref_count = 2, content = [3]\<rparr>)\<rparr>"

lemma ref_eq:
  "ref p ps q =
     map_option (\<lambda>pg. pg\<lparr>ref_count := ref_count pg + (if q = p then 1 else 0)\<rparr>) (ps q)"
  by (cases "ps q") (auto simp: ref_def split: option.splits)

lemma ref_all_eq:
  "ref_all ts ps q =
     map_option (\<lambda>pg. pg\<lparr>ref_count := ref_count pg + count_list ts (Some q)\<rparr>) (ps q)"
proof (induction ts ps rule: ref_all.induct)
  case (1 ps)
  then show ?case by (cases "ps q") simp_all
next
  case (2 ts ps)
  then show ?case by simp
next
  case (3 p ts ps)
  have "ref_all (Some p # ts) ps q = ref_all ts (ref p ps) q" by simp
  also have "\<dots> = map_option (\<lambda>pg. pg\<lparr>ref_count := ref_count pg + count_list ts (Some q)\<rparr>) (ref p ps q)"
    by (rule "3.IH")
  also have "\<dots> = map_option (\<lambda>pg. pg\<lparr>ref_count := ref_count pg + count_list (Some p # ts) (Some q)\<rparr>) (ps q)"
    by (cases "ps q") (simp_all add: ref_eq)
  finally show ?case .
qed

text \<open>
  Claim C8. \<open>try_clone\<close> on a live object with \<open>N\<close> pages returns null and leaves
  the state as it is when the allocation fails. Otherwise it returns a new private
  object whose token sequence equals the parent's (the same \<open>N\<close> tokens); the parent
  and every other object are unchanged; no page is added or removed, no page content
  changes, and the reference count of every page grows by the number of parent
  tokens that refer to it; replacing a token of the clone afterwards leaves the
  parent as it is, and replacing a token of the parent leaves the clone as it is.
\<close>

theorem try_clone_copies_tokens:
  assumes "objects s this = Some parent" and "new \<notin> dom (objects s)"
  shows "try_clone s this None = Some (None, s)
     \<and> (\<exists>s' clone. try_clone s this (Some new) = Some (Some new, s')
          \<and> objects s' new = Some clone
          \<and> kind clone = Private
          \<and> m_physical_pages clone = m_physical_pages parent
          \<and> length (m_physical_pages clone) = length (m_physical_pages parent)
          \<and> objects s' this = Some parent
          \<and> (\<forall>i. i \<noteq> new \<longrightarrow> objects s' i = objects s i)
          \<and> dom (pages s') = dom (pages s)
          \<and> (\<forall>p pg. pages s p = Some pg \<longrightarrow>
                (\<exists>pg'. pages s' p = Some pg' \<and> content pg' = content pg
                   \<and> ref_count pg' = ref_count pg + count_list (m_physical_pages parent) (Some p)))
          \<and> (\<forall>n token. objects (set_page s' new n token) this = Some parent)
          \<and> (\<forall>n token. objects (set_page s' this n token) new = Some clone))"
proof -
  from assms have ne: "new \<noteq> this" by auto
  let ?clone = "PrivateInodeVMObject_copy parent"
  let ?s' = "\<lparr>objects = (objects s)(new \<mapsto> ?clone),
              pages = ref_all (m_physical_pages parent) (pages s)\<rparr>"
  have 1: "try_clone s this None = Some (None, s)"
    using assms(1) by (simp add: try_clone_def)
  have 2: "try_clone s this (Some new) = Some (Some new, ?s')"
    using assms(1) by (simp add: try_clone_def)
  have 3: "dom (pages ?s') = dom (pages s)"
    by (auto simp: ref_all_eq dom_def)
  have 4: "\<forall>p pg. pages s p = Some pg \<longrightarrow>
                (\<exists>pg'. pages ?s' p = Some pg' \<and> content pg' = content pg
                   \<and> ref_count pg' = ref_count pg + count_list (m_physical_pages parent) (Some p))"
    by (simp add: ref_all_eq)
  have 5: "\<forall>n token. objects (set_page ?s' new n token) this = Some parent"
    using ne assms(1) by (simp add: set_page_def)
  have 6: "\<forall>n token. objects (set_page ?s' this n token) new = Some ?clone"
    using ne assms(1) by (simp add: set_page_def)
  have 7: "objects ?s' new = Some ?clone" by simp
  have 8: "kind ?clone = Private" by (simp add: PrivateInodeVMObject_copy_def)
  have 9: "m_physical_pages ?clone = m_physical_pages parent"
    by (simp add: PrivateInodeVMObject_copy_def)
  have 10: "length (m_physical_pages ?clone) = length (m_physical_pages parent)"
    by (simp add: PrivateInodeVMObject_copy_def)
  have 11: "objects ?s' this = Some parent" using ne assms(1) by simp
  have 12: "\<forall>i. i \<noteq> new \<longrightarrow> objects ?s' i = objects s i" by simp
  show ?thesis
    by (rule conjI [OF 1], rule exI [of _ ?s'], rule exI [of _ ?clone])
       (intro conjI 2 3 4 5 6 7 8 9 10 11 12)
qed

theorem try_clone_copies_tokens_witness:
  "objects clone_example_state 1 = Some clone_example_parent
   \<and> 2 \<notin> dom (objects clone_example_state)
   \<and> try_clone clone_example_state 1 None = Some (None, clone_example_state)
   \<and> (\<exists>s' clone. try_clone clone_example_state 1 (Some 2) = Some (Some 2, s')
         \<and> objects s' 2 = Some clone
         \<and> m_physical_pages clone = [Some 10, None, Some 11]
         \<and> objects s' 1 = Some clone_example_parent)"
proof -
  have h1: "objects clone_example_state 1 = Some clone_example_parent"
    by (simp add: clone_example_state_def)
  have h2: "2 \<notin> dom (objects clone_example_state)"
    by (simp add: clone_example_state_def)
  have p: "m_physical_pages clone_example_parent = [Some 10, None, Some 11]"
    by (simp add: clone_example_parent_def)
  note t = try_clone_copies_tokens [OF h1 h2, unfolded p]
  from t have a: "try_clone clone_example_state 1 None = Some (None, clone_example_state)"
    by (rule conjunct1)
  from t have "\<exists>s' clone. try_clone clone_example_state 1 (Some 2) = Some (Some 2, s')
         \<and> objects s' 2 = Some clone
         \<and> m_physical_pages clone = [Some 10, None, Some 11]
         \<and> objects s' 1 = Some clone_example_parent"
    by (elim conjE exE) (intro exI conjI; assumption)
  with a h1 h2 show ?thesis by (intro conjI)
qed

end
